theory Spec2Isabelle
  imports Main "HOL-Library.Sublist"
begin

section \<open>Data model\<close>

text \<open>
  The repository holds two variants of the \<^verbatim>\<open>Logger\<close> class. The primary one pads the
  upper-cased type name to a common width and has \<^verbatim>\<open>logJSON\<close>; the older one, in
  \<^verbatim>\<open>src/log.ts\<close>, writes the type name in brackets and has no \<^verbatim>\<open>logJSON\<close>. Both are
  embedded; the definitions of the older one carry the suffix \<open>0\<close>.

  Strings are lists of code units, taken from the range \<open>0..255\<close> (\<^typ>\<open>char\<close>).
  The sink \<^verbatim>\<open>consoleFunction\<close> and the observer \<^verbatim>\<open>onLog\<close> are callbacks with effects:
  they are functions on a world \<open>'w\<close> that the methods thread through, in the order of the
  source's statements. The callbacks return, and leave the fields of the logger as they
  are; the override of \<^verbatim>\<open>getPrefixForType\<close> is a function of its three arguments.
\<close>

datatype LoggerType = Info | Warn | Error | Debug | Success | Misc

text \<open>A \<^verbatim>\<open>LoggerType\<close> value is the string itself.\<close>

fun typeName :: "LoggerType \<Rightarrow> string" where
  "typeName Info = ''info''"
| "typeName Warn = ''warn''"
| "typeName Error = ''error''"
| "typeName Debug = ''debug''"
| "typeName Success = ''success''"
| "typeName Misc = ''misc''"

definition loggerTypes :: "LoggerType list" where
  "loggerTypes = [Info, Warn, Error, Debug, Success, Misc]"

text \<open>\<^verbatim>\<open>Math.max(...loggerTypes.map((type) => type.length))\<close>, on a list that is not empty.\<close>

definition largestLoggerTypeLength :: int where
  "largestLoggerTypeLength =
     (let ls = map (\<lambda>type. int (length (typeName type))) loggerTypes
      in fold max (tl ls) (hd ls))"

definition smallestLoggerTypeLength :: int where
  "smallestLoggerTypeLength =
     (let ls = map (\<lambda>type. int (length (typeName type))) loggerTypes
      in fold min (tl ls) (hd ls))"

datatype LineType = New | Current | Overlap | DoubleNew | Space | Replace

datatype js_error = RangeError

text \<open>
  A method either returns, or throws after the effects it already had: both carry the world.
\<close>

datatype 'w completion = Normal 'w | Throw js_error 'w

record 'w Logger =
  useColor :: bool
  consoleFunction :: "string \<Rightarrow> 'w \<Rightarrow> 'w"
  onLog :: "(LoggerType \<Rightarrow> string \<Rightarrow> 'w \<Rightarrow> 'w) option"
  getPrefixForTypeOverride :: "(LoggerType \<Rightarrow> bool option \<Rightarrow> string option \<Rightarrow> string) option"

record 'w Logger0 =
  useColor0 :: bool
  consoleFunction0 :: "string \<Rightarrow> 'w \<Rightarrow> 'w"
  onLog0 :: "(LoggerType \<Rightarrow> string \<Rightarrow> 'w \<Rightarrow> 'w) option"
  getPrefixForTypeOverride0 :: "(LoggerType \<Rightarrow> bool option \<Rightarrow> string) option"

text \<open>
  The constructor sets the two fields it is given; the observer and the override stay unset.
\<close>

definition newLogger :: "bool \<Rightarrow> (string \<Rightarrow> 'w \<Rightarrow> 'w) \<Rightarrow> 'w Logger" where
  "newLogger c f =
     \<lparr>useColor = c, consoleFunction = f, onLog = None, getPrefixForTypeOverride = None\<rparr>"

definition newLogger0 :: "bool \<Rightarrow> (string \<Rightarrow> 'w \<Rightarrow> 'w) \<Rightarrow> 'w Logger0" where
  "newLogger0 c f =
     \<lparr>useColor0 = c, consoleFunction0 = f, onLog0 = None, getPrefixForTypeOverride0 = None\<rparr>"

text \<open>A capturing sink and a recording observer, on a world that is the trace of events.\<close>

datatype event = Wrote string | Observed LoggerType string

definition captureSink :: "string \<Rightarrow> event list \<Rightarrow> event list" where
  "captureSink s tr = tr @ [Wrote s]"

definition recordOnLog :: "LoggerType \<Rightarrow> string \<Rightarrow> event list \<Rightarrow> event list" where
  "recordOnLog t m tr = tr @ [Observed t m]"

section \<open>Characters and strings of the host language\<close>

definition LF :: char where "LF = CHR 0x0A"
definition CR :: char where "CR = CHR 0x0D"
definition ESC :: char where "ESC = CHR 0x1B"

text \<open>
  \<^verbatim>\<open>String.prototype.toUpperCase\<close> maps a text code point by code point, with the
  case mapping of the Unicode standard, which does not depend on the locale. On the code
  units of this embedding: the letters \<^verbatim>\<open>a\<close> to \<^verbatim>\<open>z\<close> move to \<^verbatim>\<open>A\<close> to \<^verbatim>\<open>Z\<close>; the
  letters \<open>0xE0\<close> to \<open>0xFE\<close> move down by \<open>0x20\<close>, except the division sign
  \<open>0xF7\<close>, which has no case; the sharp s \<open>0xDF\<close> becomes the two letters \<^verbatim>\<open>SS\<close>, so
  a text can grow. The upper case of the micro sign \<open>0xB5\<close> and of the y with diaeresis
  \<open>0xFF\<close> is one code unit each, \<open>0x39C\<close> and \<open>0x178\<close>, above the range of this
  embedding: \<open>aboveRange\<close> stands for that code unit and leaves it unspecified. Every
  other code unit stays as it is.
\<close>

definition aboveRange :: "char \<Rightarrow> char" where
  "aboveRange = undefined"

definition toUpperUnit :: "char \<Rightarrow> string" where
  "toUpperUnit c =
     (let n = (of_char c :: nat)
      in if 97 \<le> n \<and> n \<le> 122 then [char_of (n - 32)]
         else if n = 181 then [aboveRange c]
         else if n = 223 then ''SS''
         else if n = 247 then [c]
         else if 224 \<le> n \<and> n \<le> 254 then [char_of (n - 32)]
         else if n = 255 then [aboveRange c]
         else [c])"

definition toUpperCase :: "string \<Rightarrow> string" where
  "toUpperCase s = concat (map toUpperUnit s)"

text \<open>\<^verbatim>\<open>String.prototype.repeat\<close>: a negative count throws a \<^verbatim>\<open>RangeError\<close>.\<close>

definition repeat :: "string \<Rightarrow> int \<Rightarrow> js_error + string" where
  "repeat s n = (if n < 0 then Inl RangeError else Inr (concat (replicate (nat n) s)))"

section \<open>The primary Logger\<close>

fun escapeSequence :: "LineType \<Rightarrow> string" where
  "escapeSequence New = [LF]"
| "escapeSequence Current = []"
| "escapeSequence Overlap = [CR]"
| "escapeSequence DoubleNew = [LF, LF]"
| "escapeSequence Space = '' ''"
| "escapeSequence Replace = ESC # ''[2K'' @ [CR]"

definition plain :: "'w Logger \<Rightarrow> string \<Rightarrow> LineType \<Rightarrow> 'w \<Rightarrow> 'w" where
  "plain L message lineType w = consoleFunction L (escapeSequence lineType @ message) w"

fun colors :: "LoggerType \<Rightarrow> string" where
  "colors Info = ESC # ''[34m''"
| "colors Warn = ESC # ''[33m''"
| "colors Error = ESC # ''[31m''"
| "colors Debug = ESC # ''[36m''"
| "colors Success = ESC # ''[32m''"
| "colors Misc = ESC # ''[37m''"

definition colorType :: "LoggerType \<Rightarrow> string \<Rightarrow> string" where
  "colorType type typeString = colors type @ typeString @ ESC # ''[0m''"

definition getPrefixForType ::
  "'w Logger \<Rightarrow> LoggerType \<Rightarrow> bool option \<Rightarrow> string option \<Rightarrow> js_error + string" where
  "getPrefixForType L type useColorOverride overridePrefixText =
     (case getPrefixForTypeOverride L of
        Some f \<Rightarrow> Inr (f type useColorOverride overridePrefixText)
      | None \<Rightarrow>
          (let prefixText =
                 toUpperCase (case overridePrefixText of None \<Rightarrow> typeName type | Some t \<Rightarrow> t)
           in case repeat '' '' (largestLoggerTypeLength - int (length prefixText)) of
                Inl e \<Rightarrow> Inl e
              | Inr pad \<Rightarrow>
                  (let prefixString = prefixText @ pad @ '' |''
                   in Inr (if (case useColorOverride of None \<Rightarrow> useColor L | Some b \<Rightarrow> b)
                           then colorType type prefixString
                           else prefixString))))"

definition log :: "'w Logger \<Rightarrow> LoggerType \<Rightarrow> string \<Rightarrow> 'w \<Rightarrow> 'w completion" where
  "log L type message w =
     (let w1 = (case onLog L of None \<Rightarrow> w | Some f \<Rightarrow> f type message w)
      in case getPrefixForType L type None None of
           Inl e \<Rightarrow> Throw e w1
         | Inr p \<Rightarrow> Normal (plain L (p @ '' '' @ message) New w1))"

section \<open>The older Logger of \<^verbatim>\<open>src/log.ts\<close>\<close>

text \<open>
  \<^verbatim>\<open>plain\<close>, \<^verbatim>\<open>colorType\<close> and \<^verbatim>\<open>log\<close> have the same text as in the primary variant;
  \<^verbatim>\<open>getPrefixForType\<close> differs, and so does the type of the override.
\<close>

definition plain0 :: "'w Logger0 \<Rightarrow> string \<Rightarrow> LineType \<Rightarrow> 'w \<Rightarrow> 'w" where
  "plain0 L message lineType w = consoleFunction0 L (escapeSequence lineType @ message) w"

definition getPrefixForType0 :: "'w Logger0 \<Rightarrow> LoggerType \<Rightarrow> bool option \<Rightarrow> string" where
  "getPrefixForType0 L type useColorOverride =
     (case getPrefixForTypeOverride0 L of
        Some f \<Rightarrow> f type useColorOverride
      | None \<Rightarrow>
          (if (case useColorOverride of None \<Rightarrow> useColor0 L | Some b \<Rightarrow> b)
           then colorType type (''['' @ typeName type @ '']:'')
           else ''['' @ typeName type @ '']:''))"

definition log0 :: "'w Logger0 \<Rightarrow> LoggerType \<Rightarrow> string \<Rightarrow> 'w \<Rightarrow> 'w" where
  "log0 L type message w =
     (let w1 = (case onLog0 L of None \<Rightarrow> w | Some f \<Rightarrow> f type message w)
      in plain0 L (getPrefixForType0 L type None @ '' '' @ message) New w1)"

section \<open>JSON values and \<^verbatim>\<open>JSON.stringify\<close>\<close>

text \<open>
  \<^verbatim>\<open>logJSON\<close> hands its argument to the host's \<^verbatim>\<open>JSON.stringify\<close>. The serializable
  values are the JSON values: \<^verbatim>\<open>null\<close>, booleans, numbers, strings, arrays, and objects
  as the list of their own properties in enumeration order. A number is an integer that a
  double holds exactly and the host writes in decimal digits, which is every integer up to
  \<open>2 ^ 53\<close> in magnitude; larger numbers, fractions and the negative zero are outside this
  embedding.
\<close>

datatype json = JNull | JBool bool | JNum int | JStr string | JArr "json list" | JObj "(string \<times> json) list"

text \<open>The double quote and the backslash.\<close>

definition DQ :: char where "DQ = CHR 0x22"
definition BSL :: char where "BSL = CHR 0x5C"

text \<open>\<^verbatim>\<open>Number::toString\<close> on an integer: an optional minus sign and the decimal digits.\<close>

fun natToString :: "nat \<Rightarrow> string" where
  "natToString n = (if n < 10 then [''0123456789'' ! n] else natToString (n div 10) @ [''0123456789'' ! (n mod 10)])"
declare natToString.simps [simp del]

definition numberToString :: "int \<Rightarrow> string" where
  "numberToString i = (if i < 0 then CHR ''-'' # natToString (nat (- i)) else natToString (nat i))"

text \<open>
  \<^verbatim>\<open>QuoteJSONString\<close>: the two-character escapes of the standard's table, \<^verbatim>\<open>\u00xx\<close> in
  lower-case hexadecimal for the other code units below \<open>0x20\<close>, every other code unit
  as it is.
\<close>

definition hex2 :: "nat \<Rightarrow> string" where
  "hex2 n = [''0123456789abcdef'' ! (n div 16), ''0123456789abcdef'' ! (n mod 16)]"

definition jsonEscapes :: "(char \<times> string) list" where
  "jsonEscapes =
     [(CHR 0x08, [BSL, CHR ''b'']), (CHR 0x09, [BSL, CHR ''t'']), (CHR 0x0A, [BSL, CHR ''n'']),
      (CHR 0x0C, [BSL, CHR ''f'']), (CHR 0x0D, [BSL, CHR ''r'']), (DQ, [BSL, DQ]),
      (BSL, [BSL, BSL])]"

definition quoteChar :: "char \<Rightarrow> string" where
  "quoteChar c =
     (case map_of jsonEscapes c of
        Some escape \<Rightarrow> escape
      | None \<Rightarrow>
          if (of_char c :: nat) < 0x20 then BSL # ''u00'' @ hex2 (of_char c) else [c])"

definition QuoteJSONString :: "string \<Rightarrow> string" where
  "QuoteJSONString s = DQ # concat (map quoteChar s) @ [DQ]"

text \<open>
  \<^verbatim>\<open>SerializeJSONProperty\<close> with \<^verbatim>\<open>SerializeJSONArray\<close> and \<^verbatim>\<open>SerializeJSONObject\<close>
  unfolded: \<open>gap\<close> is the indentation unit, \<open>indent\<close> the current indentation.
\<close>

fun join :: "string \<Rightarrow> string list \<Rightarrow> string" where
  "join sep [] = []"
| "join sep [x] = x"
| "join sep (x # y # ys) = x @ sep @ join sep (y # ys)"

fun SerializeJSONProperty :: "string \<Rightarrow> string \<Rightarrow> json \<Rightarrow> string" where
  "SerializeJSONProperty gap indent JNull = ''null''"
| "SerializeJSONProperty gap indent (JBool b) = (if b then ''true'' else ''false'')"
| "SerializeJSONProperty gap indent (JNum n) = numberToString n"
| "SerializeJSONProperty gap indent (JStr s) = QuoteJSONString s"
| "SerializeJSONProperty gap indent (JArr vs) =
     (let stepback = indent;
          indent = indent @ gap;
          partial = map (SerializeJSONProperty gap indent) vs
      in if partial = [] then ''[]''
         else if gap = [] then ''['' @ join '','' partial @ '']''
         else (let separator = '','' @ [LF] @ indent
               in ''['' @ [LF] @ indent @ join separator partial @ [LF] @ stepback @ '']''))"
| "SerializeJSONProperty gap indent (JObj kvs) =
     (let stepback = indent;
          indent = indent @ gap;
          partial = map (\<lambda>(k, v).
                      QuoteJSONString k @ '':'' @ (if gap \<noteq> [] then '' '' else []) @
                      SerializeJSONProperty gap indent v) kvs
      in if partial = [] then ''{}''
         else if gap = [] then ''{'' @ join '','' partial @ ''}''
         else (let separator = '','' @ [LF] @ indent
               in ''{'' @ [LF] @ indent @ join separator partial @ [LF] @ stepback @ ''}''))"

text \<open>
  \<^verbatim>\<open>JSON.stringify(value)\<close> is \<open>JSON_stringify value None\<close>, and
  \<^verbatim>\<open>JSON.stringify(value, null, n)\<close> is \<open>JSON_stringify value (Some n)\<close>: the gap is
  \<open>min 10 n\<close> spaces, and empty when \<open>n < 1\<close>.
\<close>

definition JSON_stringify :: "json \<Rightarrow> int option \<Rightarrow> string" where
  "JSON_stringify v space =
     (let gap = (case space of None \<Rightarrow> [] | Some n \<Rightarrow> replicate (nat (min 10 n)) CHR '' '')
      in SerializeJSONProperty gap [] v)"

section \<open>Regular expressions and string replacement\<close>

text \<open>
  The five patterns of \<^verbatim>\<open>logJSON\<close> use literals, character classes, sequence,
  alternation, and the greedy quantifiers \<^verbatim>\<open>*\<close>, \<^verbatim>\<open>+\<close> and \<^verbatim>\<open>?\<close>. \<open>matchFrom r s\<close>
  lists what is left of \<open>s\<close> after each way \<open>r\<close> can match at its start, in the order in
  which the host's backtracking matcher tries them; the head of the list is the match it
  reports. An iteration of a quantifier that consumes nothing is rejected, as the host does.
\<close>

datatype regex =
    Lit char | NoneOf "char list" | OneOf "char list" | AnyChar | WhiteSpace | Digit
  | Seq regex regex | Alt regex regex | Star regex | Opt regex

definition isLineTerminator :: "char \<Rightarrow> bool" where
  "isLineTerminator c = (c = CHR 0x0A \<or> c = CHR 0x0D)"

definition isWhiteSpace :: "char \<Rightarrow> bool" where
  "isWhiteSpace c = (c \<in> set [CHR 0x09, CHR 0x0A, CHR 0x0B, CHR 0x0C, CHR 0x0D, CHR 0x20, CHR 0xA0])"

definition isDigit :: "char \<Rightarrow> bool" where
  "isDigit c = (c \<in> set ''0123456789'')"

fun charMatches :: "regex \<Rightarrow> char \<Rightarrow> bool" where
  "charMatches (Lit c) x = (x = c)"
| "charMatches (NoneOf cs) x = (x \<notin> set cs)"
| "charMatches (OneOf cs) x = (x \<in> set cs)"
| "charMatches AnyChar x = (\<not> isLineTerminator x)"
| "charMatches WhiteSpace x = isWhiteSpace x"
| "charMatches Digit x = isDigit x"
| "charMatches _ x = False"

function (sequential) matchFrom :: "regex \<Rightarrow> string \<Rightarrow> string list" where
  "matchFrom (Seq a b) s = concat (map (matchFrom b) (matchFrom a s))"
| "matchFrom (Alt a b) s = matchFrom a s @ matchFrom b s"
| "matchFrom (Star a) s =
     concat (map (\<lambda>s'. if length s' < length s then matchFrom (Star a) s' else []) (matchFrom a s)) @ [s]"
| "matchFrom (Opt a) s = filter (\<lambda>s'. length s' < length s) (matchFrom a s) @ [s]"
| "matchFrom r [] = []"
| "matchFrom r (x # xs) = (if charMatches r x then [xs] else [])"
  by pat_completeness auto
termination
  by (relation "measures [\<lambda>(r, s). size r, \<lambda>(r, s). length s]") auto
declare matchFrom.simps(3) [simp del]

text \<open>\<^verbatim>\<open>r+\<close> is one \<open>r\<close> and then \<^verbatim>\<open>r*\<close>; a literal word is the sequence of its characters.\<close>

definition Plus :: "regex \<Rightarrow> regex" where
  "Plus r = Seq r (Star r)"

fun Lits :: "string \<Rightarrow> regex" where
  "Lits [c] = Lit c"
| "Lits (c # cs) = Seq (Lit c) (Lits cs)"
| "Lits [] = Opt (OneOf [])"

text \<open>
  \<^verbatim>\<open>text.replace(regex, callback)\<close> with a global pattern: the matches from left to right,
  each search starting where the last match ended (one code unit further after an empty
  match). \<open>scan\<close> returns the matched texts, which is what the callback of \<^verbatim>\<open>logJSON\<close>
  records.
\<close>

function scan :: "regex \<Rightarrow> string \<Rightarrow> string list" where
  "scan r s =
     (case matchFrom r s of
        [] \<Rightarrow> (case s of [] \<Rightarrow> [] | x # xs \<Rightarrow> scan r xs)
      | s' # alternatives \<Rightarrow>
          take (length s - length s') s #
            (if length s' < length s then scan r s'
             else (case s of [] \<Rightarrow> [] | x # xs \<Rightarrow> scan r xs)))"
  by pat_completeness auto
termination
  by (relation "measure (\<lambda>(r, s). length s)") auto
declare scan.simps [simp del]

text \<open>
  The patterns: \<^verbatim>\<open>/"([^"\\]*(\\.[^"\\]*)*)"\s*:/g\<close> for keys, the same without \<^verbatim>\<open>\s*:\<close>
  for strings, \<^verbatim>\<open>/-?\d+(\.\d+)?([eE][+-]?\d+)?/g\<close> for numbers, \<^verbatim>\<open>/true|false/g\<close> and
  \<^verbatim>\<open>/null/g\<close>; \<open>jsonColors\<close> is \<^verbatim>\<open>Object.entries(colors)\<close>, in the order of the literal.
\<close>

definition stringBody :: regex where
  "stringBody = Seq (Star (NoneOf [DQ, BSL])) (Star (Seq (Seq (Lit BSL) AnyChar) (Star (NoneOf [DQ, BSL]))))"

definition keyRegex :: regex where
  "keyRegex = Seq (Seq (Seq (Seq (Lit DQ) stringBody) (Lit DQ)) (Star WhiteSpace)) (Lit CHR '':'')"

definition stringRegex :: regex where
  "stringRegex = Seq (Seq (Lit DQ) stringBody) (Lit DQ)"

definition numberRegex :: regex where
  "numberRegex =
     Seq (Seq (Seq (Opt (Lit CHR ''-'')) (Plus Digit))
              (Opt (Seq (Lit CHR ''.'') (Plus Digit))))
         (Opt (Seq (Seq (OneOf ''eE'') (Opt (OneOf ''+-''))) (Plus Digit)))"

definition booleanRegex :: regex where
  "booleanRegex = Alt (Lits ''true'') (Lits ''false'')"

definition nullRegex :: regex where
  "nullRegex = Lits ''null''"

definition jsonColors :: "(string \<times> regex) list" where
  "jsonColors =
     [(ESC # ''[34m'', keyRegex), (ESC # ''[32m'', stringRegex), (ESC # ''[33m'', numberRegex),
      (ESC # ''[33m'', booleanRegex), (ESC # ''[33m'', nullRegex)]"

text \<open>
  \<^verbatim>\<open>String.prototype.replaceAll\<close> with a string pattern and a string replacement. The
  replacement is a template: the host expands \<^verbatim>\<open>$$\<close> to a dollar sign, \<^verbatim>\<open>$&\<close> to the
  matched text, \<^verbatim>\<open>$`\<close> to the text before the match and \<^verbatim>\<open>$'\<close> to the text after it
  (there are no capture groups, so \<^verbatim>\<open>$1\<close> and the like stay as they are). The occurrences
  are searched from left to right and do not overlap.
\<close>

fun GetSubstitution :: "string \<Rightarrow> string \<Rightarrow> string \<Rightarrow> string \<Rightarrow> string" where
  "GetSubstitution matched preceding following (c # d # rest) =
     (if c = CHR ''$'' \<and> d = CHR ''$'' then CHR ''$'' # GetSubstitution matched preceding following rest
      else if c = CHR ''$'' \<and> d = CHR ''&'' then matched @ GetSubstitution matched preceding following rest
      else if c = CHR ''$'' \<and> d = CHR 0x60 then preceding @ GetSubstitution matched preceding following rest
      else if c = CHR ''$'' \<and> d = CHR 0x27 then following @ GetSubstitution matched preceding following rest
      else c # GetSubstitution matched preceding following (d # rest))"
| "GetSubstitution matched preceding following template = template"

function replaceAllFrom :: "string \<Rightarrow> string \<Rightarrow> string \<Rightarrow> string \<Rightarrow> string" where
  "replaceAllFrom searchString replaceValue preceding s =
     (if prefix searchString s then
        GetSubstitution searchString preceding (drop (length searchString) s) replaceValue @
          (if searchString = [] then
             (case s of [] \<Rightarrow> [] | c # cs \<Rightarrow> c # replaceAllFrom searchString replaceValue (preceding @ [c]) cs)
           else replaceAllFrom searchString replaceValue (preceding @ searchString)
                  (drop (length searchString) s))
      else (case s of [] \<Rightarrow> []
            | c # cs \<Rightarrow> c # replaceAllFrom searchString replaceValue (preceding @ [c]) cs))"
  by pat_completeness auto
termination
  by (relation "measure (\<lambda>(p, t, b, s). length s)") (auto simp: prefix_def)
declare replaceAllFrom.simps [simp del]

definition replaceAll :: "string \<Rightarrow> string \<Rightarrow> string \<Rightarrow> string" where
  "replaceAll s searchString replaceValue = replaceAllFrom searchString replaceValue [] s"

text \<open>
  The two loops of \<^verbatim>\<open>logJSON\<close>: the first scans the serialized text once per pattern and
  records each matched text with the pattern's color; the second replaces, match by match,
  in the text as changed so far.
\<close>

definition collectMatches :: "string \<Rightarrow> (string \<times> string) list" where
  "collectMatches jsonText =
     concat (map (\<lambda>(color, regex). map (\<lambda>text. (text, color)) (scan regex jsonText)) jsonColors)"

definition colorize :: "string \<Rightarrow> string" where
  "colorize jsonText =
     fold (\<lambda>(text, color) doc. replaceAll doc text (color @ text @ ESC # ''[0m''))
       (collectMatches jsonText) jsonText"

text \<open>
  \<^verbatim>\<open>logJSON\<close>: the observer sees the compact serialization; the text for the sink is
  serialized again with the indent, colored when \<^verbatim>\<open>useColor\<close> is set, and written after
  the prefix of the type, with the prefix of the empty text after each line feed.
\<close>

definition logJSON :: "'w Logger \<Rightarrow> LoggerType \<Rightarrow> json \<Rightarrow> int \<Rightarrow> 'w \<Rightarrow> 'w completion" where
  "logJSON L type objectOrArray indentLength w =
     (let w1 = (case onLog L of None \<Rightarrow> w
                | Some f \<Rightarrow> f type (JSON_stringify objectOrArray None) w);
          jsonText = JSON_stringify objectOrArray (Some indentLength);
          jsonText = (if useColor L then colorize jsonText else jsonText)
      in case getPrefixForType L type None None of
           Inl e \<Rightarrow> Throw e w1
         | Inr p \<Rightarrow>
             (case getPrefixForType L type None (Some []) of
                Inl e \<Rightarrow> Throw e w1
              | Inr p0 \<Rightarrow>
                  Normal (plain L (p @ '' '' @ replaceAll jsonText [LF] (LF # p0 @ '' '')) New w1)))"

section \<open>The wording of the specification\<close>

text \<open>
  The specification describes the second loop as replacing every occurrence of the recorded
  text by the color code, the text and the reset code. \<open>replaceEvery\<close> does that, with the
  replacement taken as it is, and \<open>colorizeAsSpecified\<close> is the coloring built on it.
\<close>

function replaceEvery :: "string \<Rightarrow> string \<Rightarrow> string \<Rightarrow> string" where
  "replaceEvery searchString replacement s =
     (if prefix searchString s then
        replacement @
          (if searchString = [] then
             (case s of [] \<Rightarrow> [] | c # cs \<Rightarrow> c # replaceEvery searchString replacement cs)
           else replaceEvery searchString replacement (drop (length searchString) s))
      else (case s of [] \<Rightarrow> [] | c # cs \<Rightarrow> c # replaceEvery searchString replacement cs))"
  by pat_completeness auto
termination
  by (relation "measure (\<lambda>(p, t, s). length s)") (auto simp: prefix_def)
declare replaceEvery.simps [simp del]

definition colorizeAsSpecified :: "string \<Rightarrow> string" where
  "colorizeAsSpecified jsonText =
     fold (\<lambda>(text, color) doc. replaceEvery text (color @ text @ ESC # ''[0m'') doc)
       (collectMatches jsonText) jsonText"


text \<open>
  Removing what \<^verbatim>\<open>logJSON\<close> put around the JSON text: the line feed of \<^verbatim>\<open>plain\<close>, the
  prefix \<open>p\<close> and a space in front, and the prefix \<open>q\<close> and a space after each line feed.
\<close>

definition stripPrefixes :: "string \<Rightarrow> string \<Rightarrow> string \<Rightarrow> string" where
  "stripPrefixes p q out =
     replaceEvery (LF # q @ '' '') [LF] (drop (length (LF # p @ '' '')) out)"

text \<open>The white space of the JSON grammar: space, tab, line feed and carriage return.\<close>

definition isJSONWhiteSpace :: "char \<Rightarrow> bool" where
  "isJSONWhiteSpace c = (c \<in> set [CHR 0x20, CHR 0x09, CHR 0x0A, CHR 0x0D])"

text \<open>
  An override function, as a caller may assign to \<^verbatim>\<open>getPrefixForTypeOverride\<close>:
  \<^verbatim>\<open>() => 'x$&y$$z'\<close>, one prefix for every type and text.
\<close>

definition dollarPrefix :: "LoggerType \<Rightarrow> bool option \<Rightarrow> string option \<Rightarrow> string" where
  "dollarPrefix type useColorOverride overridePrefixText = ''x$&y$$z''"

text \<open>
  A terminal escape sequence starts with the escape character, or with the one-unit control
  sequence introducer.
\<close>

definition escapeIntroducer :: "char \<Rightarrow> bool" where
  "escapeIntroducer c = (c = ESC \<or> c = CHR 0x9B)"

section \<open>Properties of \<^verbatim>\<open>plain\<close>\<close>

text \<open>
  C5. \<^verbatim>\<open>plain(message, lineType)\<close> hands the sink the escape sequence of the line type
  followed by the message, in both variants; the table of escape sequences is the one of
  the source; \<^verbatim>\<open>plain('x', 'overlap')\<close> on a capturing sink writes a carriage return and
  \<^verbatim>\<open>x\<close>.
\<close>

theorem plain_escape_then_message:
  "plain L message lineType w = consoleFunction L (escapeSequence lineType @ message) w
   \<and> plain0 L0 message lineType w0 = consoleFunction0 L0 (escapeSequence lineType @ message) w0
   \<and> escapeSequence New = [CHR 0x0A]
   \<and> escapeSequence Current = ''''
   \<and> escapeSequence Overlap = [CHR 0x0D]
   \<and> escapeSequence DoubleNew = [CHR 0x0A, CHR 0x0A]
   \<and> escapeSequence Space = '' ''
   \<and> escapeSequence Replace = [CHR 0x1B, CHR ''['', CHR ''2'', CHR ''K'', CHR 0x0D]
   \<and> plain (L\<lparr>consoleFunction := captureSink\<rparr>) ''x'' Overlap [] = [Wrote [CHR 0x0D, CHR ''x'']]
   \<and> plain0 (L0\<lparr>consoleFunction0 := captureSink\<rparr>) ''x'' Overlap [] = [Wrote [CHR 0x0D, CHR ''x'']]"
  by (simp add: plain_def plain0_def LF_def CR_def ESC_def captureSink_def)

section \<open>Prefixes\<close>

lemma largestLoggerTypeLength_eq: "largestLoggerTypeLength = 7"
  by (simp add: largestLoggerTypeLength_def loggerTypes_def)

lemma toUpperCase_names:
  "toUpperCase ''info'' = ''INFO''"
  "toUpperCase ''warn'' = ''WARN''"
  "toUpperCase ''error'' = ''ERROR''"
  "toUpperCase ''debug'' = ''DEBUG''"
  "toUpperCase ''success'' = ''SUCCESS''"
  "toUpperCase ''misc'' = ''MISC''"
  by code_simp+

lemma of_char_sharp_s: "((of_char c :: nat) = 223) = (c = CHR 0xDF)"
proof
  assume "(of_char c :: nat) = 223"
  then have "char_of (of_char c :: nat) = (char_of (223::nat) :: char)" by simp
  moreover have "(char_of (223::nat) :: char) = CHR 0xDF" by code_simp
  ultimately show "c = CHR 0xDF" by simp
next
  assume "c = CHR 0xDF"
  then show "(of_char c :: nat) = 223" by simp
qed

lemma length_toUpperUnit: "length (toUpperUnit c) = (if c = CHR 0xDF then 2 else 1)"
  using of_char_sharp_s [of c] by (simp add: toUpperUnit_def Let_def)

lemma length_toUpperCase:
  "length (toUpperCase s) = length s + length (filter (\<lambda>c. c = CHR 0xDF) s)"
  by (induction s) (simp_all add: toUpperCase_def length_toUpperUnit)

lemma length_toUpperCase_typeName: "length (toUpperCase (typeName t)) = length (typeName t)"
  by (cases t) (simp_all add: toUpperCase_names)

lemma length_typeName_le: "int (length (typeName t)) \<le> largestLoggerTypeLength"
  by (cases t) (simp_all add: largestLoggerTypeLength_eq)

lemma length_colorType: "length (colorType t s) = length s + 9"
  by (cases t) (simp_all add: colorType_def)

lemma getPrefixForType_no_override:
  assumes "getPrefixForTypeOverride L = None"
  shows "getPrefixForType L t c ov =
     (let prefixText = toUpperCase (case ov of None \<Rightarrow> typeName t | Some x \<Rightarrow> x)
      in if int (length prefixText) \<le> largestLoggerTypeLength
         then Inr (let prefixString =
                         prefixText @ replicate (nat (largestLoggerTypeLength - int (length prefixText))) CHR '' '' @ '' |''
                   in if (case c of None \<Rightarrow> useColor L | Some b \<Rightarrow> b)
                      then colorType t prefixString else prefixString)
         else Inl RangeError)"
  using assms by (simp add: getPrefixForType_def Let_def repeat_def)

lemma getPrefixForType_typeName:
  assumes "getPrefixForTypeOverride L = None"
  shows "getPrefixForType L t c None =
     Inr (let prefixString = toUpperCase (typeName t) @ replicate (7 - length (typeName t)) CHR '' '' @ '' |''
          in if (case c of None \<Rightarrow> useColor L | Some b \<Rightarrow> b)
             then colorType t prefixString else prefixString)"
  using length_typeName_le [of t]
  by (simp add: getPrefixForType_no_override [OF assms] Let_def length_toUpperCase_typeName
      largestLoggerTypeLength_eq nat_diff_distrib')

lemma getPrefixForType_empty:
  assumes "getPrefixForTypeOverride L = None"
  shows "getPrefixForType L t c (Some []) =
     Inr (if (case c of None \<Rightarrow> useColor L | Some b \<Rightarrow> b)
          then colorType t ''        |'' else ''        |'')"
  by (simp add: getPrefixForType_no_override [OF assms] Let_def toUpperCase_def largestLoggerTypeLength_eq eval_nat_numeral)

lemma getPrefixForType_default_returns: "\<exists>p. getPrefixForType L t c None = Inr p"
proof (cases "getPrefixForTypeOverride L")
  case None
  then show ?thesis by (simp add: getPrefixForType_typeName)
next
  case (Some f)
  then show ?thesis by (simp add: getPrefixForType_def)
qed

lemma getPrefixForType_empty_returns: "\<exists>p. getPrefixForType L t c (Some []) = Inr p"
proof (cases "getPrefixForTypeOverride L")
  case None
  then show ?thesis by (simp add: getPrefixForType_empty)
next
  case (Some f)
  then show ?thesis by (simp add: getPrefixForType_def)
qed

lemma getPrefixForType_update [simp]:
  "getPrefixForType (L\<lparr>consoleFunction := g\<rparr>) = getPrefixForType L"
  "getPrefixForType (L\<lparr>onLog := h\<rparr>) = getPrefixForType L"
  by (simp_all add: getPrefixForType_def fun_eq_iff Let_def split: option.splits sum.splits)

text \<open>
  C1. A logger built with \<^verbatim>\<open>new Logger(false, captureSink)\<close> and asked to
  \<^verbatim>\<open>log('error', 'disk full')\<close> writes one string: a line feed, \<^verbatim>\<open>ERROR\<close> padded with two
  spaces to the width 7 of the longest type name, a space and a bar, a space, and the
  message. The label is three spaces away from the bar, not one (whether the claim's
  \<^verbatim>\<open>\n\<close> is read as a line feed or as a backslash and an \<^verbatim>\<open>n\<close>).
\<close>

theorem log_error_disk_full:
  "log (newLogger False captureSink) Error ''disk full'' [] =
     Normal [Wrote (CHR 0x0A # ''ERROR   | disk full'')]"
  by (simp add: log_def newLogger_def getPrefixForType_typeName toUpperCase_names plain_def
      captureSink_def LF_def eval_nat_numeral)

theorem log_error_disk_full_counterexample:
  "log (newLogger False captureSink) Error ''disk full'' [] \<noteq>
     Normal [Wrote (CHR 0x0A # ''ERROR | disk full'')]
   \<and> log (newLogger False captureSink) Error ''disk full'' [] \<noteq>
     Normal [Wrote (CHR 0x5C # CHR ''n'' # ''ERROR | disk full'')]"
  by (simp add: log_def newLogger_def getPrefixForType_typeName toUpperCase_names plain_def
      captureSink_def LF_def eval_nat_numeral)

text \<open>
  C4. Without an override function and without an override text, the primary
  \<^verbatim>\<open>getPrefixForType\<close> returns prefixes of one length for all types, under the same color
  setting. The older variant writes \<^verbatim>\<open>[type]:\<close>, whose length follows the type name.
\<close>

theorem getPrefixForType_same_length:
  assumes "getPrefixForTypeOverride L = None"
  shows "\<exists>p1 p2. getPrefixForType L t1 c None = Inr p1 \<and> getPrefixForType L t2 c None = Inr p2
           \<and> length p1 = length p2"
  using length_typeName_le [of t1] length_typeName_le [of t2]
  by (simp add: getPrefixForType_typeName [OF assms] Let_def length_colorType
      length_toUpperCase_typeName largestLoggerTypeLength_eq)

theorem getPrefixForType_same_length_witness:
  "getPrefixForTypeOverride (newLogger True captureSink) = None \<and>
   (\<exists>p1 p2. getPrefixForType (newLogger True captureSink) Info None None = Inr p1
       \<and> getPrefixForType (newLogger True captureSink) Success None None = Inr p2
       \<and> length p1 = length p2)"
  using getPrefixForType_same_length [of "newLogger True captureSink" Info None Success]
  by (simp add: newLogger_def)

theorem getPrefixForType0_length_counterexample:
  "length (getPrefixForType0 (newLogger0 False captureSink) Info None) \<noteq>
   length (getPrefixForType0 (newLogger0 False captureSink) Success None)"
  by (simp add: getPrefixForType0_def newLogger0_def)

text \<open>
  C10. Without an override function, \<^verbatim>\<open>getPrefixForType\<close> returns exactly when the
  upper-cased prefix text is no longer than the longest type name, which has 7 code units;
  otherwise the count handed to \<^verbatim>\<open>repeat\<close> is negative and the call throws a
  \<^verbatim>\<open>RangeError\<close>. Upper-casing adds one code unit for each sharp s and none otherwise, so
  every override text longer than 7 throws, and so does a text of four sharp s.
  \<^verbatim>\<open>log\<close> and \<^verbatim>\<open>logJSON\<close> compute their prefixes before they call \<^verbatim>\<open>plain\<close>: a prefix
  call that throws ends them with the world as the observer left it, and the sink is not
  called. The texts they pass are the type name and the empty text, which fit, so on a
  logger without override function their prefix calls return.
\<close>

theorem getPrefixForType_returns_iff:
  assumes "getPrefixForTypeOverride L = None"
  shows "largestLoggerTypeLength = 7
         \<and> (\<exists>p. getPrefixForType L t c ov = Inr p) =
           (int (length (toUpperCase (case ov of None \<Rightarrow> typeName t | Some x \<Rightarrow> x)))
              \<le> largestLoggerTypeLength)
         \<and> (getPrefixForType L t c ov = Inl RangeError) =
           (largestLoggerTypeLength - int (length (toUpperCase (case ov of None \<Rightarrow> typeName t | Some x \<Rightarrow> x))) < 0)
         \<and> length (toUpperCase x) = length x + length (filter (\<lambda>u. u = CHR 0xDF) x)
         \<and> (largestLoggerTypeLength < int (length x)
              \<longrightarrow> getPrefixForType L t c (Some x) = Inl RangeError)
         \<and> log L t m w =
             (case getPrefixForType L t None None of
                Inl e \<Rightarrow> Throw e (case onLog L of None \<Rightarrow> w | Some f \<Rightarrow> f t m w)
              | Inr p \<Rightarrow>
                  Normal (consoleFunction L (CHR 0x0A # p @ '' '' @ m)
                    (case onLog L of None \<Rightarrow> w | Some f \<Rightarrow> f t m w)))
         \<and> logJSON L t v n w =
             (case getPrefixForType L t None None of
                Inl e \<Rightarrow>
                  Throw e (case onLog L of None \<Rightarrow> w | Some f \<Rightarrow> f t (JSON_stringify v None) w)
              | Inr p \<Rightarrow>
                  (case getPrefixForType L t None (Some []) of
                     Inl e \<Rightarrow>
                       Throw e (case onLog L of None \<Rightarrow> w | Some f \<Rightarrow> f t (JSON_stringify v None) w)
                   | Inr q \<Rightarrow>
                       Normal (consoleFunction L
                         (CHR 0x0A # p @ '' '' @
                            replaceAll (if useColor L then colorize (JSON_stringify v (Some n))
                                        else JSON_stringify v (Some n))
                              [CHR 0x0A] (CHR 0x0A # q @ '' ''))
                         (case onLog L of None \<Rightarrow> w | Some f \<Rightarrow> f t (JSON_stringify v None) w))))
         \<and> (\<exists>p. getPrefixForType L t None None = Inr p)
         \<and> (\<exists>q. getPrefixForType L t None (Some []) = Inr q)"
proof -
  have "log L t m w =
      (case getPrefixForType L t None None of
         Inl e \<Rightarrow> Throw e (case onLog L of None \<Rightarrow> w | Some f \<Rightarrow> f t m w)
       | Inr p \<Rightarrow>
           Normal (consoleFunction L (CHR 0x0A # p @ '' '' @ m)
             (case onLog L of None \<Rightarrow> w | Some f \<Rightarrow> f t m w)))"
    by (simp add: log_def plain_def LF_def Let_def split: sum.splits)
  moreover have "logJSON L t v n w =
      (case getPrefixForType L t None None of
         Inl e \<Rightarrow>
           Throw e (case onLog L of None \<Rightarrow> w | Some f \<Rightarrow> f t (JSON_stringify v None) w)
       | Inr p \<Rightarrow>
           (case getPrefixForType L t None (Some []) of
              Inl e \<Rightarrow>
                Throw e (case onLog L of None \<Rightarrow> w | Some f \<Rightarrow> f t (JSON_stringify v None) w)
            | Inr q \<Rightarrow>
                Normal (consoleFunction L
                  (CHR 0x0A # p @ '' '' @
                     replaceAll (if useColor L then colorize (JSON_stringify v (Some n))
                                 else JSON_stringify v (Some n))
                       [CHR 0x0A] (CHR 0x0A # q @ '' ''))
                  (case onLog L of None \<Rightarrow> w | Some f \<Rightarrow> f t (JSON_stringify v None) w))))"
    by (simp add: logJSON_def plain_def LF_def Let_def split: sum.splits)
  moreover have "largestLoggerTypeLength = 7
         \<and> (\<exists>p. getPrefixForType L t c ov = Inr p) =
           (int (length (toUpperCase (case ov of None \<Rightarrow> typeName t | Some x \<Rightarrow> x)))
              \<le> largestLoggerTypeLength)
         \<and> (getPrefixForType L t c ov = Inl RangeError) =
           (largestLoggerTypeLength - int (length (toUpperCase (case ov of None \<Rightarrow> typeName t | Some x \<Rightarrow> x))) < 0)"
    by (simp add: getPrefixForType_no_override [OF assms] Let_def largestLoggerTypeLength_eq)
  moreover have "length (toUpperCase x) = length x + length (filter (\<lambda>u. u = CHR 0xDF) x)"
    by (rule length_toUpperCase)
  moreover have "largestLoggerTypeLength < int (length x)
      \<longrightarrow> getPrefixForType L t c (Some x) = Inl RangeError"
    by (simp add: getPrefixForType_no_override [OF assms] Let_def largestLoggerTypeLength_eq
        length_toUpperCase)
  ultimately show ?thesis
    using getPrefixForType_default_returns [of L t None] getPrefixForType_empty_returns [of L t None]
    by (simp only: simp_thms)
qed

theorem getPrefixForType_returns_iff_witness:
  "getPrefixForTypeOverride (newLogger True captureSink) = None
   \<and> largestLoggerTypeLength < int (length ''critical'')
   \<and> getPrefixForType (newLogger True captureSink) Warn None (Some ''critical'') = Inl RangeError
   \<and> getPrefixForType (newLogger True captureSink) Warn None
         (Some [CHR 0xDF, CHR 0xDF, CHR 0xDF, CHR 0xDF]) = Inl RangeError
   \<and> (\<exists>p. getPrefixForType (newLogger True captureSink) Warn None (Some ''notice'') = Inr p)
   \<and> (\<exists>p. log (newLogger True captureSink) Warn ''low disk'' [] =
            Normal [Wrote (CHR 0x0A # p @ '' low disk'')])"
proof -
  let ?L = "newLogger True captureSink :: event list Logger"
  have n: "getPrefixForTypeOverride ?L = None"
    by (simp add: newLogger_def)
  have u: "toUpperCase [CHR 0xDF, CHR 0xDF, CHR 0xDF, CHR 0xDF] = ''SSSSSSSS''"
      "toUpperCase ''notice'' = ''NOTICE''"
    by code_simp+
  have long: "largestLoggerTypeLength < int (length ''critical'')"
    and sharp: "largestLoggerTypeLength
        - int (length (toUpperCase [CHR 0xDF, CHR 0xDF, CHR 0xDF, CHR 0xDF])) < 0"
    and short: "int (length (toUpperCase ''notice'')) \<le> largestLoggerTypeLength"
    by (simp_all add: largestLoggerTypeLength_eq u)
  have "getPrefixForType ?L Warn None (Some ''critical'') = Inl RangeError"
    using getPrefixForType_returns_iff [OF n, where x = "''critical''" and t = Warn and c = None] long
    by blast
  moreover have "getPrefixForType ?L Warn None
      (Some [CHR 0xDF, CHR 0xDF, CHR 0xDF, CHR 0xDF]) = Inl RangeError"
    using getPrefixForType_returns_iff
      [OF n, where t = Warn and c = None and ov = "Some [CHR 0xDF, CHR 0xDF, CHR 0xDF, CHR 0xDF]"]
      sharp
    by (simp only: option.case)
  moreover have "\<exists>p. getPrefixForType ?L Warn None (Some ''notice'') = Inr p"
    using getPrefixForType_returns_iff [OF n, where t = Warn and c = None and ov = "Some ''notice''"]
      short
    by (simp only: option.case)
  moreover have "\<exists>p. log ?L Warn ''low disk'' [] = Normal [Wrote (CHR 0x0A # p @ '' low disk'')]"
  proof -
    from getPrefixForType_returns_iff [OF n, where t = Warn and m = "''low disk''" and w = "[]"]
    obtain p where p: "getPrefixForType ?L Warn None None = Inr p"
      and l: "log ?L Warn ''low disk'' [] =
        (case getPrefixForType ?L Warn None None of
           Inl e \<Rightarrow> Throw e (case onLog ?L of None \<Rightarrow> [] | Some f \<Rightarrow> f Warn ''low disk'' [])
         | Inr p \<Rightarrow>
             Normal (consoleFunction ?L (CHR 0x0A # p @ '' '' @ ''low disk'')
               (case onLog ?L of None \<Rightarrow> [] | Some f \<Rightarrow> f Warn ''low disk'' [])))"
      by blast
    have "log ?L Warn ''low disk'' [] = Normal [Wrote (CHR 0x0A # p @ '' low disk'')]"
      by (simp only: l p sum.case) (simp add: newLogger_def captureSink_def)
    then show ?thesis by blast
  qed
  ultimately show ?thesis using n long by blast
qed

section \<open>The observer\<close>

text \<open>
  C6. With an observer configured, \<^verbatim>\<open>log(type, message)\<close> applies it once, to the type and
  the message as given, and hands the sink the world the observer left; on the recording
  observer and the capturing sink the trace grows by the observation and then the write.
  The older variant does the same.
\<close>

theorem log_observer_once_before_write:
  assumes "onLog L = Some f" and "onLog0 L0 = Some f0"
  shows "(\<exists>p. getPrefixForType L t None None = Inr p
            \<and> log L t m w = Normal (consoleFunction L (CHR 0x0A # p @ '' '' @ m) (f t m w))
            \<and> log (L\<lparr>consoleFunction := captureSink, onLog := Some recordOnLog\<rparr>) t m tr
                = Normal (tr @ [Observed t m, Wrote (CHR 0x0A # p @ '' '' @ m)]))
       \<and> log0 L0 t m w0
            = consoleFunction0 L0 (CHR 0x0A # getPrefixForType0 L0 t None @ '' '' @ m) (f0 t m w0)"
proof -
  obtain p where p: "getPrefixForType L t None None = Inr p"
    using getPrefixForType_default_returns by blast
  show ?thesis
    using assms p
    by (simp add: log_def log0_def plain_def plain0_def LF_def captureSink_def recordOnLog_def)
qed

theorem log_observer_once_before_write_witness:
  "onLog ((newLogger False captureSink)\<lparr>onLog := Some recordOnLog\<rparr>) = Some recordOnLog
   \<and> onLog0 ((newLogger0 False captureSink)\<lparr>onLog0 := Some recordOnLog\<rparr>) = Some recordOnLog
   \<and> log ((newLogger False captureSink)\<lparr>onLog := Some recordOnLog\<rparr>) Warn ''low disk'' []
       = Normal [Observed Warn ''low disk'', Wrote (CHR 0x0A # ''WARN    | low disk'')]
   \<and> log0 ((newLogger0 False captureSink)\<lparr>onLog0 := Some recordOnLog\<rparr>) Warn ''low disk'' []
       = [Observed Warn ''low disk'', Wrote (CHR 0x0A # ''[warn]: low disk'')]"
  using log_observer_once_before_write
    [of "(newLogger False captureSink)\<lparr>onLog := Some recordOnLog\<rparr>" recordOnLog
        "(newLogger0 False captureSink)\<lparr>onLog0 := Some recordOnLog\<rparr>" recordOnLog
        Warn "''low disk''" "[]" "[]" "[]"]
  by (simp add: newLogger_def newLogger0_def getPrefixForType_typeName toUpperCase_names
      captureSink_def recordOnLog_def getPrefixForType0_def eval_nat_numeral)

section \<open>String replacement\<close>

text \<open>
  A replacement without a dollar sign is taken as it is, and replacing a single character
  is a map over the text.
\<close>

lemma GetSubstitution_plain:
  "CHR ''$'' \<notin> set template \<Longrightarrow> GetSubstitution m b a template = template"
  by (induction m b a template rule: GetSubstitution.induct) auto

lemma replaceAllFrom_replaceEvery:
  "CHR ''$'' \<notin> set template \<Longrightarrow> replaceAllFrom p template b s = replaceEvery p template s"
proof (induction p template b s rule: replaceAllFrom.induct)
  case (1 p template b s)
  show ?case
    apply (subst replaceAllFrom.simps)
    apply (subst replaceEvery.simps)
    using 1 by (auto simp: GetSubstitution_plain split: list.splits)
qed

lemma replaceEvery_char:
  "replaceEvery [c] r s = concat (map (\<lambda>x. if x = c then r else [x]) s)"
proof (induction s)
  case Nil
  show ?case by (subst replaceEvery.simps) simp
next
  case (Cons x xs)
  show ?case by (subst replaceEvery.simps) (use Cons in auto)
qed

lemma replaceAll_char:
  "CHR ''$'' \<notin> set r \<Longrightarrow> replaceAll s [c] r = concat (map (\<lambda>x. if x = c then r else [x]) s)"
  by (simp add: replaceAll_def replaceAllFrom_replaceEvery replaceEvery_char)

section \<open>The serialized text\<close>

text \<open>
  What \<^verbatim>\<open>logJSON\<close> writes once both prefixes are known, and the code units of a
  serialization: none is below \<open>0x20\<close>, except the line feeds of an indented text.
\<close>

lemma logJSON_eq:
  assumes "getPrefixForType L t None None = Inr p"
    and "getPrefixForType L t None (Some []) = Inr p0"
  shows "logJSON L t v n w =
     Normal (consoleFunction L
       (LF # p @ '' '' @
          replaceAll (if useColor L then colorize (JSON_stringify v (Some n))
                      else JSON_stringify v (Some n)) [LF] (LF # p0 @ '' ''))
       (case onLog L of None \<Rightarrow> w | Some f \<Rightarrow> f t (JSON_stringify v None) w))"
  using assms by (simp add: logJSON_def plain_def Let_def)

lemma set_natToString: "set (natToString n) \<subseteq> set ''0123456789''"
proof (induction n rule: natToString.induct)
  case (1 n)
  have d: "\<And>k. k < 10 \<Longrightarrow> ''0123456789'' ! k \<in> set ''0123456789''"
    by (rule nth_mem) simp
  show ?case
  proof (cases "n < 10")
    case True
    then show ?thesis using d [of n] by (subst natToString.simps) simp
  next
    case False
    then show ?thesis
      using 1 d [of "n mod 10"] by (subst natToString.simps) auto
  qed
qed

lemma natToString_digit:
  assumes "x \<in> set (natToString n)"
  shows "x \<in> set ''0123456789''"
  using assms set_natToString by blast

lemma numberToString_chars:
  assumes "x \<in> set (numberToString i)"
  shows "x = CHR ''-'' \<or> x \<in> set ''0123456789''"
proof (cases "i < 0")
  case True
  with assms have "x = CHR ''-'' \<or> x \<in> set (natToString (nat (- i)))"
    by (simp add: numberToString_def)
  then show ?thesis using natToString_digit by blast
next
  case False
  with assms have "x \<in> set (natToString (nat i))"
    by (simp add: numberToString_def)
  then show ?thesis using natToString_digit by blast
qed

lemma numberToString_no_control:
  assumes "x \<in> set (numberToString i)"
  shows "32 \<le> (of_char x :: nat)"
  using numberToString_chars [OF assms] by auto

lemma set_hex2: "n < 32 \<Longrightarrow> set (hex2 n) \<subseteq> set ''0123456789abcdef''"
proof -
  assume n: "n < 32"
  have d: "\<And>k. k < 16 \<Longrightarrow> ''0123456789abcdef'' ! k \<in> set ''0123456789abcdef''"
    by (rule nth_mem) simp
  from n have "n div 16 < 16" by simp
  moreover have "n mod 16 < 16" by simp
  ultimately show ?thesis
    using d [of "n div 16"] d [of "n mod 16"] by (simp add: hex2_def)
qed

lemma jsonEscapes_no_control:
  assumes "(c, e) \<in> set jsonEscapes" and "x \<in> set e"
  shows "32 \<le> (of_char x :: nat)"
  using assms by (auto simp: jsonEscapes_def BSL_def DQ_def)

lemma hex2_no_control:
  assumes "n < 32" and "x \<in> set (hex2 n)"
  shows "32 \<le> (of_char x :: nat)"
proof -
  have "x \<in> set ''0123456789abcdef''" using assms set_hex2 by blast
  then show ?thesis by auto
qed

lemma quoteChar_no_control:
  assumes "x \<in> set (quoteChar c)"
  shows "32 \<le> (of_char x :: nat)"
proof (cases "map_of jsonEscapes c")
  case (Some e)
  then have "(c, e) \<in> set jsonEscapes" by (rule map_of_SomeD)
  moreover from Some assms have "x \<in> set e" by (simp add: quoteChar_def)
  ultimately show ?thesis by (rule jsonEscapes_no_control)
next
  case None
  show ?thesis
  proof (cases "(of_char c :: nat) < 32")
    case True
    with None assms have "x = BSL \<or> x = CHR ''u'' \<or> x = CHR ''0'' \<or> x \<in> set (hex2 (of_char c))"
      by (auto simp: quoteChar_def)
    then show ?thesis using hex2_no_control [OF True] by (auto simp: BSL_def)
  next
    case False
    with None assms show ?thesis by (simp add: quoteChar_def)
  qed
qed

lemma QuoteJSONString_no_control:
  assumes "x \<in> set (QuoteJSONString s)"
  shows "32 \<le> (of_char x :: nat)"
proof -
  from assms have "x = DQ \<or> (\<exists>c \<in> set s. x \<in> set (quoteChar c))"
    by (auto simp: QuoteJSONString_def)
  then show ?thesis using quoteChar_no_control by (auto simp: DQ_def)
qed

lemma in_join:
  assumes "x \<in> set (join sep xs)"
  shows "x \<in> set sep \<and> 2 \<le> length xs \<or> (\<exists>y \<in> set xs. x \<in> set y)"
  using assms by (induction sep xs rule: join.induct) auto

lemma Serialize_chars:
  assumes "x \<in> set (SerializeJSONProperty gap indent v)"
    and "\<forall>y \<in> set gap \<union> set indent. 32 \<le> (of_char y :: nat)"
  shows "32 \<le> (of_char x :: nat) \<or> (gap \<noteq> [] \<and> x = LF)"
  using assms
proof (induction gap indent v arbitrary: x rule: SerializeJSONProperty.induct)
  case (1 gap indent)
  then show ?case by auto
next
  case (2 gap indent b)
  then show ?case by (auto split: if_splits)
next
  case (3 gap indent n)
  then show ?case using numberToString_no_control by simp
next
  case (4 gap indent s)
  then show ?case using QuoteJSONString_no_control by simp
next
  case (5 gap indent vs)
  let ?ind = "indent @ gap"
  have ind: "\<forall>y \<in> set gap \<union> set ?ind. 32 \<le> (of_char y :: nat)"
    using 5(3) by auto
  have elems: "\<And>v y. v \<in> set vs \<Longrightarrow> y \<in> set (SerializeJSONProperty gap ?ind v)
      \<Longrightarrow> 32 \<le> (of_char y :: nat) \<or> (gap \<noteq> [] \<and> y = LF)"
    using 5(1) [OF refl refl _ _ ind] by blast
  have joined: "\<And>sep y. y \<in> set (join sep (map (SerializeJSONProperty gap ?ind) vs))
      \<Longrightarrow> y \<in> set sep \<or> 32 \<le> (of_char y :: nat) \<or> (gap \<noteq> [] \<and> y = LF)"
    using in_join elems by fastforce
  from 5(2) consider "x \<in> set ''[]''"
    | "x \<in> set (join '','' (map (SerializeJSONProperty gap ?ind) vs))"
    | "gap \<noteq> []" "x = LF \<or> x \<in> set ?ind \<or> x \<in> set indent"
    | "gap \<noteq> []" "x \<in> set (join ('','' @ [LF] @ ?ind) (map (SerializeJSONProperty gap ?ind) vs))"
    by (auto simp: Let_def split: if_splits)
  then show ?case
  proof cases
    case 1
    then show ?thesis by auto
  next
    case 2
    then show ?thesis using joined [of x "'',''"] by auto
  next
    case 3
    then show ?thesis using 5(3) by auto
  next
    case 4
    then show ?thesis using joined [of x "'','' @ [LF] @ ?ind"] 5(3) by auto
  qed
next
  case (6 gap indent kvs)
  let ?ind = "indent @ gap"
  let ?member = "\<lambda>(k, v). QuoteJSONString k @ '':'' @ (if gap \<noteq> [] then '' '' else []) @
                      SerializeJSONProperty gap ?ind v"
  have ind: "\<forall>y \<in> set gap \<union> set ?ind. 32 \<le> (of_char y :: nat)"
    using 6(3) by auto
  have vals: "\<And>k v y. (k, v) \<in> set kvs \<Longrightarrow> y \<in> set (SerializeJSONProperty gap ?ind v)
      \<Longrightarrow> 32 \<le> (of_char y :: nat) \<or> (gap \<noteq> [] \<and> y = LF)"
    using 6(1) [OF refl refl _ refl _ ind] by blast
  have member: "\<And>kv y. kv \<in> set kvs \<Longrightarrow> y \<in> set (?member kv)
      \<Longrightarrow> 32 \<le> (of_char y :: nat) \<or> (gap \<noteq> [] \<and> y = LF)"
  proof -
    fix kv y assume kv: "kv \<in> set kvs" and y: "y \<in> set (?member kv)"
    obtain k v where [simp]: "kv = (k, v)" by (cases kv)
    from y have "y \<in> set (QuoteJSONString k) \<or> y = CHR '':'' \<or> y = CHR '' ''
        \<or> y \<in> set (SerializeJSONProperty gap ?ind v)"
      by (auto split: if_splits)
    then show "32 \<le> (of_char y :: nat) \<or> (gap \<noteq> [] \<and> y = LF)"
      using QuoteJSONString_no_control vals [of k v y] kv by auto
  qed
  have joined: "\<And>sep y. y \<in> set (join sep (map ?member kvs))
      \<Longrightarrow> y \<in> set sep \<or> 32 \<le> (of_char y :: nat) \<or> (gap \<noteq> [] \<and> y = LF)"
  proof -
    fix sep y assume "y \<in> set (join sep (map ?member kvs))"
    then have "y \<in> set sep \<or> (\<exists>kv \<in> set kvs. y \<in> set (?member kv))"
      using in_join [of y sep "map ?member kvs"] by auto
    then show "y \<in> set sep \<or> 32 \<le> (of_char y :: nat) \<or> (gap \<noteq> [] \<and> y = LF)"
      using member by blast
  qed
  from 6(2) consider "x \<in> set ''{}''"
    | "x \<in> set (join '','' (map ?member kvs))"
    | "gap \<noteq> []" "x = LF \<or> x \<in> set ?ind \<or> x \<in> set indent"
    | "gap \<noteq> []" "x \<in> set (join ('','' @ [LF] @ ?ind) (map ?member kvs))"
    by (auto simp: Let_def split: if_splits)
  then show ?case
  proof cases
    case 1
    then show ?thesis by auto
  next
    case 2
    then show ?thesis using joined [of x "'',''"] by auto
  next
    case 3
    then show ?thesis using 6(3) by auto
  next
    case 4
    then show ?thesis using joined [of x "'','' @ [LF] @ ?ind"] 6(3) by auto
  qed
qed

lemma JSON_stringify_chars:
  assumes "x \<in> set (JSON_stringify v space)"
  shows "32 \<le> (of_char x :: nat) \<or> (x = LF \<and> (\<exists>n. space = Some n \<and> 1 \<le> n))"
proof -
  let ?gap = "case space of None \<Rightarrow> [] | Some n \<Rightarrow> replicate (nat (min 10 n)) CHR '' ''"
  have "\<forall>y \<in> set ?gap \<union> set []. 32 \<le> (of_char y :: nat)"
    by (auto split: option.splits)
  with assms have "32 \<le> (of_char x :: nat) \<or> (?gap \<noteq> [] \<and> x = LF)"
    using Serialize_chars [of x ?gap "[]" v] by (simp add: JSON_stringify_def Let_def)
  then show ?thesis by (auto split: option.splits)
qed

lemma JSON_stringify_no_ESC: "ESC \<notin> set (JSON_stringify v space)"
  using JSON_stringify_chars [of ESC v space] by (auto simp: ESC_def LF_def)

lemma JSON_stringify_compact_no_LF: "LF \<notin> set (JSON_stringify v None)"
  using JSON_stringify_chars [of LF v None] by (auto simp: LF_def)

section \<open>\<^verbatim>\<open>logJSON\<close>\<close>

text \<open>
  C7. With an observer configured, \<^verbatim>\<open>logJSON(type, value)\<close> applies it once, to the type
  and \<^verbatim>\<open>JSON.stringify(value)\<close>, and hands the sink the world the observer left; on the
  recording observer and the capturing sink the trace grows by the observation and then the
  write. The observed text is the compact one: it holds no line feed and no escape character.
\<close>

theorem logJSON_observer_compact_before_write:
  assumes "onLog L = Some f"
  shows "(\<exists>out. logJSON L t v n w = Normal (consoleFunction L out (f t (JSON_stringify v None) w))
            \<and> logJSON (L\<lparr>consoleFunction := captureSink, onLog := Some recordOnLog\<rparr>) t v n tr
                 = Normal (tr @ [Observed t (JSON_stringify v None), Wrote out]))
         \<and> LF \<notin> set (JSON_stringify v None) \<and> ESC \<notin> set (JSON_stringify v None)"
proof -
  obtain p where p: "getPrefixForType L t None None = Inr p"
    using getPrefixForType_default_returns by blast
  obtain p0 where p0: "getPrefixForType L t None (Some []) = Inr p0"
    using getPrefixForType_empty_returns by blast
  let ?L = "L\<lparr>consoleFunction := captureSink, onLog := Some recordOnLog\<rparr>"
  have "getPrefixForType ?L t None None = Inr p" "getPrefixForType ?L t None (Some []) = Inr p0"
    using p p0 by simp_all
  then have "logJSON ?L t v n tr =
     Normal (tr @ [Observed t (JSON_stringify v None),
       Wrote (LF # p @ '' '' @
          replaceAll (if useColor L then colorize (JSON_stringify v (Some n))
                      else JSON_stringify v (Some n)) [LF] (LF # p0 @ '' ''))])"
    by (simp add: logJSON_eq captureSink_def recordOnLog_def)
  moreover have "logJSON L t v n w =
     Normal (consoleFunction L (LF # p @ '' '' @
          replaceAll (if useColor L then colorize (JSON_stringify v (Some n))
                      else JSON_stringify v (Some n)) [LF] (LF # p0 @ '' ''))
        (f t (JSON_stringify v None) w))"
    using assms by (simp add: logJSON_eq [OF p p0])
  ultimately show ?thesis
    using JSON_stringify_compact_no_LF JSON_stringify_no_ESC by blast
qed

theorem logJSON_observer_compact_before_write_witness:
  "onLog ((newLogger False captureSink)\<lparr>onLog := Some recordOnLog\<rparr>) = Some recordOnLog
   \<and> (\<exists>out. logJSON ((newLogger False captureSink)\<lparr>onLog := Some recordOnLog\<rparr>) Info
               (JObj [(''a'', JNum 1)]) 2 []
             = Normal [Observed Info (CHR ''{'' # DQ # CHR ''a'' # DQ # '':1}''), Wrote out])"
proof -
  have c: "JSON_stringify (JObj [(''a'', JNum 1)]) None = CHR ''{'' # DQ # CHR ''a'' # DQ # '':1}''"
    by code_simp
  have o: "onLog ((newLogger False captureSink)\<lparr>onLog := Some recordOnLog\<rparr>) = Some recordOnLog"
    by (simp add: newLogger_def)
  show ?thesis
    using logJSON_observer_compact_before_write
      [OF o, of Info "JObj [(''a'', JNum 1)]" 2 "[]" "[]"]
    by (simp add: c newLogger_def captureSink_def recordOnLog_def)
qed

lemma filter_concat_map:
  assumes "\<And>x. filter P (g x) = filter P [x]"
  shows "filter P (concat (map g xs)) = filter P xs"
proof (induction xs)
  case Nil
  show ?case by simp
next
  case (Cons x xs)
  have "filter P (g x) = filter P [x]" by (rule assms)
  then show ?case using Cons by simp
qed







lemma in_filterI: "x \<in> set xs \<Longrightarrow> P x \<Longrightarrow> x \<in> set (filter P xs)"
  by simp

lemma in_filterD: "x \<in> set (filter P xs) \<Longrightarrow> x \<in> set xs"
  by simp

text \<open>
  C8. With \<^verbatim>\<open>useColor\<close> false and no override function, the text \<^verbatim>\<open>logJSON\<close> writes holds
  no escape character at all, and its escape-sequence introducers are those of the
  serialization of the value, in the same order (\<^verbatim>\<open>JSON.stringify\<close> writes an escape
  character of the value as \<^verbatim>\<open>\u001b\<close>).
\<close>

theorem logJSON_plain_adds_no_escape:
  assumes "\<not> useColor L" and "getPrefixForTypeOverride L = None"
  shows "\<exists>out. logJSON L t v n w =
               Normal (consoleFunction L out
                 (case onLog L of None \<Rightarrow> w | Some f \<Rightarrow> f t (JSON_stringify v None) w))
           \<and> ESC \<notin> set out
           \<and> filter escapeIntroducer out = filter escapeIntroducer (JSON_stringify v (Some n))"
proof -
  let ?p = "toUpperCase (typeName t) @ replicate (7 - length (typeName t)) CHR '' '' @ '' |''"
  let ?q = "''        |''"
  let ?text = "JSON_stringify v (Some n)"
  let ?body = "concat (map (\<lambda>x. if x = LF then LF # ?q @ '' '' else [x]) ?text)"
  let ?out = "LF # ?p @ '' '' @ ?body"
  have p: "getPrefixForType L t None None = Inr ?p"
    using assms by (simp add: getPrefixForType_typeName)
  have p0: "getPrefixForType L t None (Some []) = Inr ?q"
    using assms by (simp add: getPrefixForType_empty)
  have "replaceAll ?text [LF] (LF # ?q @ '' '') = ?body"
    by (rule replaceAll_char) (simp add: LF_def)
  then have out: "logJSON L t v n w =
      Normal (consoleFunction L ?out
        (case onLog L of None \<Rightarrow> w | Some f \<Rightarrow> f t (JSON_stringify v None) w))"
    using assms(1) by (simp add: logJSON_eq [OF p p0])
  have "filter escapeIntroducer ?p = []"
    by (cases t) (simp_all add: toUpperCase_names escapeIntroducer_def ESC_def eval_nat_numeral)
  moreover have "filter escapeIntroducer ?body = filter escapeIntroducer ?text"
    by (rule filter_concat_map) (simp add: escapeIntroducer_def ESC_def LF_def)
  ultimately have f: "filter escapeIntroducer ?out = filter escapeIntroducer ?text"
    by (simp add: escapeIntroducer_def ESC_def LF_def)
  have "ESC \<notin> set ?out"
  proof
    assume "ESC \<in> set ?out"
    moreover have "escapeIntroducer ESC" by (simp add: escapeIntroducer_def)
    ultimately have "ESC \<in> set (filter escapeIntroducer ?out)"
      by (rule in_filterI)
    then have "ESC \<in> set (filter escapeIntroducer ?text)" by (simp only: f)
    then have "ESC \<in> set ?text" by (rule in_filterD)
    then show False using JSON_stringify_no_ESC by blast
  qed
  with out f show ?thesis by blast
qed

theorem logJSON_plain_adds_no_escape_witness:
  "\<not> useColor (newLogger False captureSink)
   \<and> getPrefixForTypeOverride (newLogger False captureSink) = None
   \<and> (\<exists>out. logJSON (newLogger False captureSink) Info (JStr [ESC, CHR ''['', CHR ''1'', CHR ''m'']) 4 []
               = Normal [Wrote out]
           \<and> ESC \<notin> set out)"
proof -
  have n: "getPrefixForTypeOverride (newLogger False captureSink :: event list Logger) = None"
    and c: "\<not> useColor (newLogger False captureSink :: event list Logger)"
    by (simp_all add: newLogger_def)
  show ?thesis
    using logJSON_plain_adds_no_escape [OF c n, of Info "JStr [ESC, CHR ''['', CHR ''1'', CHR ''m'']" 4 "[]"]
    by (simp add: n c) (auto simp: newLogger_def captureSink_def)
qed

section \<open>The coloring of the JSON text\<close>

text \<open>
  A match is a part of the scanned text, so a recorded text holds no code unit that the
  serialized text does not hold.
\<close>

lemma matchFrom_suffix: "s' \<in> set (matchFrom r s) \<Longrightarrow> suffix s' s"
proof (induction r s arbitrary: s' rule: matchFrom.induct)
  case (1 a b s)
  then obtain m where m: "m \<in> set (matchFrom a s)" and s': "s' \<in> set (matchFrom b m)"
    by auto
  from "1.IH"(1) [OF m] "1.IH"(2) [OF m s'] show ?case
    by (rule suffix_order.trans [rotated])
next
  case (2 a b s)
  then show ?case by auto
next
  case (3 a s)
  from "3.prems" consider "s' = s"
    | m where "m \<in> set (matchFrom a s)" "length m < length s" "s' \<in> set (matchFrom (Star a) m)"
    by (subst (asm) matchFrom.simps(3)) (auto split: if_splits)
  then show ?case
  proof cases
    case 1
    then show ?thesis by simp
  next
    case 2
    from "3.IH"(1) [OF 2(1)] "3.IH"(2) [OF 2(1) 2(2) 2(3)] show ?thesis
      by (rule suffix_order.trans [rotated])
  qed
next
  case (4 a s)
  then show ?case by auto
qed (auto simp: suffix_def split: if_splits)

lemma scan_chars: "t \<in> set (scan r s) \<Longrightarrow> set t \<subseteq> set s"
proof (induction r s arbitrary: t rule: scan.induct)
  case (1 r s)
  show ?case
  proof (cases "matchFrom r s")
    case Nil
    show ?thesis
    proof (cases s)
      case Nil
      with \<open>matchFrom r s = []\<close> "1.prems" show ?thesis
        by (subst (asm) scan.simps) simp
    next
      case (Cons x xs)
      with \<open>matchFrom r s = []\<close> "1.prems" have "t \<in> set (scan r xs)"
        by (subst (asm) scan.simps) simp
      from "1.IH"(1) [OF \<open>matchFrom r s = []\<close> Cons this] Cons show ?thesis by auto
    qed
  next
    case (Cons s' alts)
    then have suf: "suffix s' s" using matchFrom_suffix [of s' r s] by simp
    have taken: "set (take (length s - length s') s) \<subseteq> set s"
      by (rule set_take_subset)
    from "1.prems" Cons consider "t = take (length s - length s') s"
      | "length s' < length s" "t \<in> set (scan r s')"
      | x xs where "\<not> length s' < length s" "s = x # xs" "t \<in> set (scan r xs)"
      by (subst (asm) scan.simps) (auto split: if_splits list.splits)
    then show ?thesis
    proof cases
      case 1
      then show ?thesis using taken by simp
    next
      case 2
      from "1.IH"(2) [OF Cons 2(1) 2(2)] suf show ?thesis
        by (auto simp: suffix_def)
    next
      case 3
      from "1.IH"(3) [OF Cons 3(1) 3(2) 3(3)] 3(2) show ?thesis by auto
    qed
  qed
qed

lemma collectMatches_chars:
  assumes "(text, color) \<in> set (collectMatches s)"
  shows "set text \<subseteq> set s \<and> CHR ''$'' \<notin> set color"
  using assms scan_chars
  by (auto simp: collectMatches_def jsonColors_def ESC_def)

lemma fold_replace_cong:
  assumes "\<And>text color. (text, color) \<in> set ms \<Longrightarrow> CHR ''$'' \<notin> set (color @ text @ ESC # ''[0m'')"
  shows "fold (\<lambda>(text, color) doc. replaceAll doc text (color @ text @ ESC # ''[0m'')) ms doc =
         fold (\<lambda>(text, color) doc. replaceEvery text (color @ text @ ESC # ''[0m'') doc) ms doc"
proof (rule fold_cong [OF refl refl])
  fix m assume m: "m \<in> set ms"
  obtain lit col where eq: "m = (lit, col)" by (cases m)
  have "CHR ''$'' \<notin> set (col @ lit @ ESC # ''[0m'')"
    using assms [of lit col] m eq by simp
  then have "replaceAll d lit (col @ lit @ ESC # ''[0m'') =
             replaceEvery lit (col @ lit @ ESC # ''[0m'') d" for d
    unfolding replaceAll_def by (rule replaceAllFrom_replaceEvery)
  then show "(case m of (text, color) \<Rightarrow> \<lambda>doc. replaceAll doc text (color @ text @ ESC # ''[0m'')) =
        (case m of (text, color) \<Rightarrow> \<lambda>doc. replaceEvery text (color @ text @ ESC # ''[0m'') doc)"
    by (simp add: eq fun_eq_iff)
qed

lemma colorize_as_specified:
  assumes "CHR ''$'' \<notin> set jsonText"
  shows "colorize jsonText = colorizeAsSpecified jsonText"
  unfolding colorize_def colorizeAsSpecified_def
proof (rule fold_replace_cong)
  fix lit col assume "(lit, col) \<in> set (collectMatches jsonText)"
  then have "set lit \<subseteq> set jsonText" "CHR ''$'' \<notin> set col"
    using collectMatches_chars by blast+
  with assms show "CHR ''$'' \<notin> set (col @ lit @ ESC # ''[0m'')"
    by (auto simp: ESC_def)
qed

text \<open>
  C3. With \<^verbatim>\<open>useColor\<close> set, \<^verbatim>\<open>logJSON\<close> records the matches of the five patterns in
  the order keys, strings, numbers, booleans, \<^verbatim>\<open>null\<close>, and replaces each recorded text
  everywhere by color code, text and reset code. On a text without a dollar sign the source
  does this (\<open>colorize_as_specified\<close>). On \<^verbatim>\<open>["$&"]\<close> it does not: the replacement
  string is a template for the host's \<^verbatim>\<open>replaceAll\<close>, which expands the \<^verbatim>\<open>$&\<close> inside the
  recorded text to the matched text, so the string value is written as \<^verbatim>\<open>""$&""\<close>.
\<close>

theorem logJSON_expands_dollar_patterns:
  "logJSON (newLogger True captureSink) Info (JArr [JStr ''$&'']) 4 [] =
     Normal [Wrote (LF # colorType Info ''INFO    |'' @ '' ['' @
                    LF # colorType Info ''        |'' @ ''     '' @
                    ESC # ''[32m'' @ [DQ, DQ] @ ''$&'' @ [DQ, DQ] @ ESC # ''[0m'' @
                    LF # colorType Info ''        |'' @ '' ]'')]
   \<and> colorize (JSON_stringify (JArr [JStr ''$&'']) (Some 4)) =
       ''['' @ LF # ''    '' @ ESC # ''[32m'' @ [DQ, DQ] @ ''$&'' @ [DQ, DQ] @ ESC # ''[0m'' @ LF # '']''
   \<and> colorizeAsSpecified (JSON_stringify (JArr [JStr ''$&'']) (Some 4)) =
       ''['' @ LF # ''    '' @ ESC # ''[32m'' @ [DQ] @ ''$&'' @ [DQ] @ ESC # ''[0m'' @ LF # '']''"
  by code_simp

section \<open>Removing the prefixes\<close>

lemma replaceEvery_undo:
  "replaceEvery (LF # r) [LF] (concat (map (\<lambda>x. if x = LF then LF # r else [x]) s)) = s"
proof (induction s)
  case Nil
  show ?case by (subst replaceEvery.simps) simp
next
  case (Cons x s)
  show ?case
  proof (cases "x = LF")
    case True
    then show ?thesis using Cons by (subst replaceEvery.simps) simp
  next
    case False
    then show ?thesis using Cons by (subst replaceEvery.simps) simp
  qed
qed

text \<open>
  With \<^verbatim>\<open>useColor\<close> false and a prefix for the empty text that holds no dollar sign,
  whether it comes from an override function or not, removing the prefixes from the text
  \<^verbatim>\<open>logJSON\<close> wrote leaves \<^verbatim>\<open>JSON.stringify(value, null, indentLength)\<close>. A logger
  without override function is such a logger.
\<close>

lemma logJSON_strip_prefixes:
  assumes "\<not> useColor L"
    and "getPrefixForType L t None None = Inr p"
    and "getPrefixForType L t None (Some []) = Inr q"
    and "CHR ''$'' \<notin> set q"
  shows "\<exists>out. logJSON L t v n w =
               Normal (consoleFunction L out
                 (case onLog L of None \<Rightarrow> w | Some f \<Rightarrow> f t (JSON_stringify v None) w))
           \<and> stripPrefixes p q out = JSON_stringify v (Some n)"
proof -
  let ?s = "JSON_stringify v (Some n)"
  let ?body = "concat (map (\<lambda>x. if x = LF then LF # q @ '' '' else [x]) ?s)"
  have "replaceAll ?s [LF] (LF # q @ '' '') = ?body"
    by (rule replaceAll_char) (use assms(4) in \<open>simp add: LF_def\<close>)
  then have out: "logJSON L t v n w =
      Normal (consoleFunction L (LF # p @ '' '' @ ?body)
        (case onLog L of None \<Rightarrow> w | Some f \<Rightarrow> f t (JSON_stringify v None) w))"
    using assms(1) by (simp add: logJSON_eq [OF assms(2) assms(3)])
  have "replaceEvery (LF # q @ '' '') [LF] ?body = ?s"
    by (rule replaceEvery_undo)
  then have "stripPrefixes p q (LF # p @ '' '' @ ?body) = ?s"
    by (simp add: stripPrefixes_def)
  with out show ?thesis by blast
qed

lemma logJSON_strip_plain:
  assumes "\<not> useColor L" and "getPrefixForTypeOverride L = None"
  shows "\<exists>p out. getPrefixForType L t None None = Inr p
           \<and> getPrefixForType L t None (Some []) = Inr ''        |''
           \<and> logJSON L t v n w =
               Normal (consoleFunction L out
                 (case onLog L of None \<Rightarrow> w | Some f \<Rightarrow> f t (JSON_stringify v None) w))
           \<and> stripPrefixes p ''        |'' out = JSON_stringify v (Some n)"
proof -
  obtain p where p: "getPrefixForType L t None None = Inr p"
    using getPrefixForType_default_returns by blast
  have q: "getPrefixForType L t None (Some []) = Inr ''        |''"
    using assms by (simp add: getPrefixForType_empty)
  from logJSON_strip_prefixes [OF assms(1) p q, of v n w] p q show ?thesis
    by auto
qed

text \<open>
  C9. With \<^verbatim>\<open>useColor\<close> false, removing the prefixes from the text \<^verbatim>\<open>logJSON\<close> wrote
  leaves \<^verbatim>\<open>JSON.stringify(value, null, indentLength)\<close> when the prefix holds no dollar
  sign (\<open>logJSON_strip_prefixes\<close>). With an override function whose prefix holds a dollar
  pattern it does not: the prefix is part of the replacement string handed to the host's
  \<^verbatim>\<open>replaceAll\<close>, a template, so what follows each line feed is the expanded prefix.
  On the logger whose override returns \<^verbatim>\<open>x$&y$$z\<close>, the value \<^verbatim>\<open>[true]\<close> is written with
  \<^verbatim>\<open>x\<close>, a line feed and \<^verbatim>\<open>y$z\<close> after each line feed; no prefix is found there to
  remove. What is left is not the JSON text of the value, and no JSON text at all: after
  the opening bracket and the white space comes \<^verbatim>\<open>x\<close>, which starts no JSON value. With
  the prefix put after each line feed as it is (\<open>replaceEvery\<close>), the removal gives the
  JSON text back.
\<close>

theorem logJSON_override_prefix_expanded:
  "getPrefixForType ((newLogger False captureSink)\<lparr>getPrefixForTypeOverride := Some dollarPrefix\<rparr>)
       Info None None = Inr ''x$&y$$z''
   \<and> getPrefixForType ((newLogger False captureSink)\<lparr>getPrefixForTypeOverride := Some dollarPrefix\<rparr>)
       Info None (Some []) = Inr ''x$&y$$z''
   \<and> logJSON ((newLogger False captureSink)\<lparr>getPrefixForTypeOverride := Some dollarPrefix\<rparr>)
       Info (JArr [JBool True]) 4 [] =
     Normal [Wrote (CHR 0x0A # ''x$&y$$z ['' @
                    CHR 0x0A # ''x'' @ CHR 0x0A # ''y$z     true'' @
                    CHR 0x0A # ''x'' @ CHR 0x0A # ''y$z ]'')]
   \<and> stripPrefixes ''x$&y$$z'' ''x$&y$$z''
         (CHR 0x0A # ''x$&y$$z ['' @
          CHR 0x0A # ''x'' @ CHR 0x0A # ''y$z     true'' @
          CHR 0x0A # ''x'' @ CHR 0x0A # ''y$z ]'') =
       ''['' @ CHR 0x0A # ''x'' @ CHR 0x0A # ''y$z     true'' @ CHR 0x0A # ''x'' @ CHR 0x0A # ''y$z ]''
   \<and> dropWhile isJSONWhiteSpace
         (tl (''['' @ CHR 0x0A # ''x'' @ CHR 0x0A # ''y$z     true'' @ CHR 0x0A # ''x'' @ CHR 0x0A # ''y$z ]'')) =
       ''x'' @ CHR 0x0A # ''y$z     true'' @ CHR 0x0A # ''x'' @ CHR 0x0A # ''y$z ]''
   \<and> JSON_stringify (JArr [JBool True]) (Some 4) = ''['' @ CHR 0x0A # ''    true'' @ CHR 0x0A # '']''
   \<and> stripPrefixes ''x$&y$$z'' ''x$&y$$z''
         (CHR 0x0A # ''x$&y$$z '' @
          replaceEvery [CHR 0x0A] (CHR 0x0A # ''x$&y$$z '')
            (''['' @ CHR 0x0A # ''    true'' @ CHR 0x0A # '']'')) =
       ''['' @ CHR 0x0A # ''    true'' @ CHR 0x0A # '']''"
  by code_simp

end
